theory Spec2Isabelle
  imports Main "HOL-Library.AList" "HOL-Library.Sublist"
begin

section \<open>Strings\<close>

text \<open>
  Python \<open>str\<close> values are modelled as \<^typ>\<open>string\<close>. The model covers ASCII text:
  \<open>str.lower()\<close> maps the letters \<open>A\<close> to \<open>Z\<close> (codes 65 to 90) to \<open>a\<close> to \<open>z\<close>
  and leaves every other character as it is.
\<close>

definition lower_char :: "char \<Rightarrow> char" where
  "lower_char c =
     (let n = (of_char c :: nat) in if 65 \<le> n \<and> n \<le> 90 then char_of (n + 32) else c)"

definition lower :: "string \<Rightarrow> string" where
  "lower s = map lower_char s"

text \<open>
  \<open>s.split(sep)\<close> for a one-character separator: one part more than there are
  separators, empty parts included, so the result is never empty.
\<close>

fun split :: "char \<Rightarrow> string \<Rightarrow> string list" where
  "split sep [] = [[]]"
| "split sep (c # cs) =
     (if c = sep then [] # split sep cs
      else (case split sep cs of [] \<Rightarrow> [[c]] | p # ps \<Rightarrow> (c # p) # ps))"

text \<open>
  Interpolation of a \<open>str | None\<close> value in an f-string: \<open>None\<close> is rendered as the
  text \<open>None\<close>.
\<close>

fun format_opt :: "string option \<Rightarrow> string" where
  "format_opt None = ''None''"
| "format_opt (Some s) = s"

text \<open>Truth value of a \<open>str | None\<close>: \<open>None\<close> and the empty string are false.\<close>

fun truthy :: "string option \<Rightarrow> bool" where
  "truthy None = False"
| "truthy (Some s) = (s \<noteq> [])"


section \<open>The migration status record\<close>

record TableMigrationStatus =
  src_schema :: string
  src_table :: string
  dst_catalog :: "string option"
  dst_schema :: "string option"
  dst_table :: "string option"
  update_ts :: "string option"

definition destination :: "TableMigrationStatus \<Rightarrow> string" where
  "destination self =
     lower (format_opt (dst_catalog self) @ ''.'' @ format_opt (dst_schema self) @ ''.''
            @ format_opt (dst_table self))"


section \<open>The migration index\<close>

text \<open>
  A Python \<open>dict\<close> is an association list in insertion order: assigning to a key that
  is present replaces its value in place, assigning to a new key appends
  (\<^const>\<open>AList.update\<close>); a lookup is \<^const>\<open>map_of\<close>.
  The constructor runs the comprehension
  \<open>{(ms.src_schema, ms.src_table): ms for ms in tables}\<close>.
\<close>

type_synonym index = "((string \<times> string) \<times> TableMigrationStatus) list"

definition TableMigrationIndex :: "TableMigrationStatus list \<Rightarrow> index" where
  "TableMigrationIndex tables =
     foldl (\<lambda>idx ms. AList.update (src_schema ms, src_table ms) ms idx) [] tables"

text \<open>
  \<open>TableMigrationIndex.get\<close>: an instance of the dataclass is always true, so
  \<open>not dst\<close> holds exactly when the key is missing.
\<close>

definition index_get :: "index \<Rightarrow> string \<Rightarrow> string \<Rightarrow> TableMigrationStatus option" where
  "index_get idx schema table =
     (case map_of idx (lower schema, lower table) of
        None \<Rightarrow> None
      | Some dst \<Rightarrow> if \<not> truthy (dst_table dst) then None else Some dst)"

text \<open>\<open>TableMigrationIndex.is_migrated\<close>.\<close>

definition index_is_migrated :: "index \<Rightarrow> string \<Rightarrow> string \<Rightarrow> bool" where
  "index_is_migrated idx schema table = (index_get idx schema table \<noteq> None)"


section \<open>External collaborators\<close>

text \<open>
  The errors of the SDK client form one hierarchy: \<open>NotFound\<close> is a subclass of
  \<open>DatabricksError\<close>. The constructor \<open>DatabricksError\<close> stands for every error of the
  hierarchy that is not a \<open>NotFound\<close> (a generic remote error).
\<close>

datatype error = NotFound | DatabricksError

text \<open>
  A remote call returns an iterator: the items it yields, then the error it raises,
  if it raises one.
\<close>

type_synonym 'a listing = "'a list \<times> error option"

datatype CatalogType = DELTASHARING_CATALOG | MANAGED_CATALOG | SYSTEM_CATALOG

record CatalogInfo =
  name :: "string option"
  catalog_type :: "CatalogType option"

record SchemaInfo =
  catalog_name :: "string option"
  name :: "string option"
  full_name :: "string option"

record TableInfo =
  name :: "string option"
  full_name :: "string option"
  properties :: "(string \<times> string) list option"

text \<open>
  The metadata store as the client shows it: \<open>ws.catalogs.list()\<close>,
  \<open>ws.schemas.list(catalog_name)\<close> and \<open>ws.tables.list(catalog_name, schema_name)\<close>.
\<close>

record WorkspaceClient =
  catalogs_list :: "CatalogInfo listing"
  schemas_list :: "string \<Rightarrow> SchemaInfo listing"
  tables_list :: "string \<Rightarrow> string \<Rightarrow> TableInfo listing"

text \<open>A row of the answer to \<open>SHOW TBLPROPERTIES\<close>.\<close>

record Row =
  row_key :: string
  row_value :: string

text \<open>
  Modelled from the spec: the legacy-table descriptor of the Table Inventory (class
  \<open>Table\<close> of \<open>hive_metastore/tables.py\<close> is not among the sources), with the schema
  name, the table name and the fully qualified key.
\<close>

record Table =
  database :: string
  name :: string
  key :: string


section \<open>The migration status refresher\<close>

text \<open>
  The set holds members of the enumeration; a catalog whose type is \<open>None\<close> is not
  in it.
\<close>

definition skip_catalog_types :: "CatalogType option set" where
  "skip_catalog_types = {Some SYSTEM_CATALOG}"

text \<open>
  \<open>_iter_catalogs\<close>: the handler \<open>except DatabricksError\<close> catches every error of the
  listing, so the generator ends after the catalogs the listing yielded.
\<close>

definition iter_catalogs :: "WorkspaceClient \<Rightarrow> CatalogInfo list" where
  "iter_catalogs ws =
     (case catalogs_list ws of
        (catalogs, None) \<Rightarrow> filter (\<lambda>catalog. catalog_type catalog \<notin> skip_catalog_types) catalogs
      | (catalogs, Some e) \<Rightarrow> filter (\<lambda>catalog. catalog_type catalog \<notin> skip_catalog_types) catalogs)"

text \<open>
  \<open>_iter_schemas\<close>: \<open>yield from\<close> passes on the schemas the listing yields; an error
  of the listing is caught by one of the two handlers and the loop continues with the
  next catalog.
\<close>

fun iter_schemas_loop :: "WorkspaceClient \<Rightarrow> CatalogInfo list \<Rightarrow> SchemaInfo list" where
  "iter_schemas_loop ws [] = []"
| "iter_schemas_loop ws (catalog # rest) =
     (case CatalogInfo.name catalog of
        None \<Rightarrow> iter_schemas_loop ws rest
      | Some cname \<Rightarrow>
          (case schemas_list ws cname of
             (schemas, None) \<Rightarrow> schemas @ iter_schemas_loop ws rest
           | (schemas, Some NotFound) \<Rightarrow> schemas @ iter_schemas_loop ws rest
           | (schemas, Some DatabricksError) \<Rightarrow> schemas @ iter_schemas_loop ws rest))"

definition iter_schemas :: "WorkspaceClient \<Rightarrow> SchemaInfo list" where
  "iter_schemas ws = iter_schemas_loop ws (iter_catalogs ws)"

type_synonym seen = "(string \<times> string) list"

text \<open>The body of the loop over the tables of one schema in \<open>get_seen_tables\<close>.\<close>

definition see_table :: "seen \<Rightarrow> TableInfo \<Rightarrow> seen" where
  "see_table seen_tables table =
     (case properties table of
        None \<Rightarrow> seen_tables
      | Some props \<Rightarrow>
          if props = [] then seen_tables
          else (case map_of props ''upgraded_from'' of
                  None \<Rightarrow> seen_tables
                | Some upgraded_from \<Rightarrow>
                    (case TableInfo.full_name table of
                       None \<Rightarrow> seen_tables
                     | Some fname \<Rightarrow>
                         if fname = [] then seen_tables
                         else AList.update (lower fname) (lower upgraded_from) seen_tables)))"

text \<open>
  The loop over the schemas: \<open>list(...)\<close> runs the listing of the tables to its end
  inside the \<open>try\<close>, so an error drops the tables it yielded before.
\<close>

fun get_seen_tables_loop :: "WorkspaceClient \<Rightarrow> SchemaInfo list \<Rightarrow> seen \<Rightarrow> seen" where
  "get_seen_tables_loop ws [] seen_tables = seen_tables"
| "get_seen_tables_loop ws (schema # rest) seen_tables =
     (case catalog_name schema of
        None \<Rightarrow> get_seen_tables_loop ws rest seen_tables
      | Some cn \<Rightarrow>
          (case SchemaInfo.name schema of
             None \<Rightarrow> get_seen_tables_loop ws rest seen_tables
           | Some sn \<Rightarrow>
               (case tables_list ws cn sn of
                  (tables, None) \<Rightarrow>
                    get_seen_tables_loop ws rest (foldl see_table seen_tables tables)
                | (tables, Some NotFound) \<Rightarrow> get_seen_tables_loop ws rest seen_tables
                | (tables, Some DatabricksError) \<Rightarrow> get_seen_tables_loop ws rest seen_tables)))"

definition get_seen_tables :: "WorkspaceClient \<Rightarrow> seen" where
  "get_seen_tables ws = get_seen_tables_loop ws (iter_schemas ws) []"

text \<open>
  The loop over the rows in \<open>is_migrated\<close>: the first row whose value lacks the
  phrase answers \<open>True\<close>.
\<close>

fun is_migrated_rows :: "Row list \<Rightarrow> bool" where
  "is_migrated_rows [] = False"
| "is_migrated_rows (result # rest) =
     (if sublist ''does not have property'' (row_value result) then is_migrated_rows rest
      else True)"

text \<open>
  \<open>TableMigrationStatusRefresher.is_migrated\<close>. The parameters are the function
  \<open>escape_sql_identifier\<close> (of \<open>framework/utils.py\<close>, not among the sources) and the
  \<open>fetch\<close> of the SQL backend; \<open>show_tblproperties\<close> is the text of the query. The rows
  are read one by one inside the \<open>try\<close>, so a row that answers \<open>True\<close> returns before
  a later error of the iterator is raised. Only \<open>NotFound\<close> has a handler; any other
  error leaves the function.
\<close>

definition show_tblproperties :: "(string \<Rightarrow> string) \<Rightarrow> string \<Rightarrow> string \<Rightarrow> string" where
  "show_tblproperties escape_sql_identifier schema table =
     ''SHOW TBLPROPERTIES '' @ escape_sql_identifier (schema @ ''.'' @ table)
     @ '' ('' @ [CHR 0x27] @ ''upgraded_to'' @ [CHR 0x27] @ '')''"

definition is_migrated ::
  "(string \<Rightarrow> string) \<Rightarrow> (string \<Rightarrow> Row listing) \<Rightarrow> string \<Rightarrow> string \<Rightarrow> error + bool" where
  "is_migrated escape_sql_identifier fetch schema table =
     (case fetch (show_tblproperties escape_sql_identifier schema table) of
        (results, None) \<Rightarrow> Inr (is_migrated_rows results)
      | (results, Some e) \<Rightarrow>
          if is_migrated_rows results then Inr True
          else (case e of NotFound \<Rightarrow> Inr True | DatabricksError \<Rightarrow> Inl DatabricksError))"

text \<open>\<open>{v: k for k, v in self.get_seen_tables().items()}\<close>.\<close>

definition reverse_seen :: "seen \<Rightarrow> seen" where
  "reverse_seen seen_tables = foldl (\<lambda>acc (k, v). AList.update v k acc) [] seen_tables"

text \<open>The body of the loop over the legacy tables in \<open>_crawl\<close>.\<close>

definition crawl_table ::
  "(string \<Rightarrow> string) \<Rightarrow> (string \<Rightarrow> Row listing) \<Rightarrow> seen \<Rightarrow> string \<Rightarrow> Table
   \<Rightarrow> error + TableMigrationStatus" where
  "crawl_table escape_sql_identifier fetch rev_seen timestamp table =
     (let schema = lower (database table);
          tname = lower (Table.name table);
          table_migration_status =
            \<lparr>src_schema = schema, src_table = tname, dst_catalog = None, dst_schema = None,
             dst_table = None, update_ts = Some timestamp\<rparr>
      in case map_of rev_seen (key table) of
           None \<Rightarrow> Inr table_migration_status
         | Some target_table \<Rightarrow>
             (case is_migrated escape_sql_identifier fetch schema tname of
                Inl e \<Rightarrow> Inl e
              | Inr False \<Rightarrow> Inr table_migration_status
              | Inr True \<Rightarrow>
                  if length (split CHR ''.'' target_table) = 3
                  then Inr (table_migration_status
                              \<lparr>dst_catalog := Some (split CHR ''.'' target_table ! 0),
                               dst_schema := Some (split CHR ''.'' target_table ! 1),
                               dst_table := Some (split CHR ''.'' target_table ! 2)\<rparr>)
                  else Inr table_migration_status))"

fun crawl_loop ::
  "(string \<Rightarrow> string) \<Rightarrow> (string \<Rightarrow> Row listing) \<Rightarrow> seen \<Rightarrow> string \<Rightarrow> Table list
   \<Rightarrow> error + TableMigrationStatus list" where
  "crawl_loop escape_sql_identifier fetch rev_seen timestamp [] = Inr []"
| "crawl_loop escape_sql_identifier fetch rev_seen timestamp (table # rest) =
     (case crawl_table escape_sql_identifier fetch rev_seen timestamp table of
        Inl e \<Rightarrow> Inl e
      | Inr status \<Rightarrow>
          (case crawl_loop escape_sql_identifier fetch rev_seen timestamp rest of
             Inl e \<Rightarrow> Inl e
           | Inr statuses \<Rightarrow> Inr (status # statuses)))"

text \<open>
  \<open>_crawl\<close>, given the snapshot of the Table Inventory and the time stamp of the pass
  as text. An error that leaves the generator is the result \<open>Inl\<close>.
\<close>

definition crawl ::
  "WorkspaceClient \<Rightarrow> (string \<Rightarrow> string) \<Rightarrow> (string \<Rightarrow> Row listing) \<Rightarrow> string \<Rightarrow> Table list
   \<Rightarrow> error + TableMigrationStatus list" where
  "crawl ws escape_sql_identifier fetch timestamp all_tables =
     crawl_loop escape_sql_identifier fetch (reverse_seen (get_seen_tables ws)) timestamp
       all_tables"


section \<open>The scan, in the words of the claims\<close>

text \<open>
  The back-reference property of a table, the entry the scan records for a table, and
  the tables the scan reads: \<open>listed\<close> says it with the listings, \<open>scanned_tables\<close>
  computes them in the order of the scan.
\<close>

definition back_reference :: "TableInfo \<Rightarrow> string option" where
  "back_reference table =
     (case properties table of None \<Rightarrow> None | Some props \<Rightarrow> map_of props ''upgraded_from'')"

definition seen_entry :: "TableInfo \<Rightarrow> (string \<times> string) option" where
  "seen_entry table =
     (case back_reference table of
        None \<Rightarrow> None
      | Some upgraded_from \<Rightarrow>
          (case TableInfo.full_name table of
             None \<Rightarrow> None
           | Some fname \<Rightarrow> if fname = [] then None else Some (lower fname, lower upgraded_from)))"

definition listed :: "WorkspaceClient \<Rightarrow> TableInfo \<Rightarrow> bool" where
  "listed ws table \<longleftrightarrow>
     (\<exists>catalog cname schema cn sn tables.
        catalog \<in> set (fst (catalogs_list ws)) \<and> catalog_type catalog \<notin> skip_catalog_types
        \<and> CatalogInfo.name catalog = Some cname
        \<and> schema \<in> set (fst (schemas_list ws cname))
        \<and> catalog_name schema = Some cn \<and> SchemaInfo.name schema = Some sn
        \<and> tables_list ws cn sn = (tables, None) \<and> table \<in> set tables)"

fun scanned_tables_loop :: "WorkspaceClient \<Rightarrow> SchemaInfo list \<Rightarrow> TableInfo list" where
  "scanned_tables_loop ws [] = []"
| "scanned_tables_loop ws (schema # rest) =
     (case catalog_name schema of
        None \<Rightarrow> scanned_tables_loop ws rest
      | Some cn \<Rightarrow>
          (case SchemaInfo.name schema of
             None \<Rightarrow> scanned_tables_loop ws rest
           | Some sn \<Rightarrow>
               (case tables_list ws cn sn of
                  (tables, None) \<Rightarrow> tables @ scanned_tables_loop ws rest
                | (tables, Some e) \<Rightarrow> scanned_tables_loop ws rest)))"

definition scanned_tables :: "WorkspaceClient \<Rightarrow> TableInfo list" where
  "scanned_tables ws = scanned_tables_loop ws (iter_schemas ws)"


section \<open>Example data\<close>

definition migrated_orders :: TableMigrationStatus where
  "migrated_orders =
     \<lparr>src_schema = ''sales'', src_table = ''orders'', dst_catalog = Some ''main'',
      dst_schema = Some ''sales'', dst_table = Some ''orders'', update_ts = Some ''1.0''\<rparr>"

definition pending_orders :: TableMigrationStatus where
  "pending_orders =
     \<lparr>src_schema = ''sales'', src_table = ''orders'', dst_catalog = None,
      dst_schema = None, dst_table = None, update_ts = Some ''1.0''\<rparr>"

definition pending_items :: TableMigrationStatus where
  "pending_items =
     \<lparr>src_schema = ''sales'', src_table = ''items'', dst_catalog = None,
      dst_schema = None, dst_table = None, update_ts = Some ''1.0''\<rparr>"

definition empty_dst_orders :: TableMigrationStatus where
  "empty_dst_orders =
     \<lparr>src_schema = ''sales'', src_table = ''orders'', dst_catalog = Some ''main'',
      dst_schema = Some ''sales'', dst_table = Some '''', update_ts = Some ''1.0''\<rparr>"

definition mixed_case_orders :: TableMigrationStatus where
  "mixed_case_orders =
     \<lparr>src_schema = ''Sales'', src_table = ''Orders'', dst_catalog = Some ''main'',
      dst_schema = Some ''sales'', dst_table = Some ''orders'', update_ts = Some ''1.0''\<rparr>"

definition absent_row :: Row where
  "absent_row = \<lparr>row_key = ''upgraded_to'',
      row_value = ''Table hive_metastore.sales.orders does not have property: upgraded_to''\<rparr>"

definition present_row :: Row where
  "present_row = \<lparr>row_key = ''upgraded_to'', row_value = ''main.sales.orders''\<rparr>"

definition fetch_not_found :: "string \<Rightarrow> Row listing" where
  "fetch_not_found query = ([], Some NotFound)"

definition fetch_absent :: "string \<Rightarrow> Row listing" where
  "fetch_absent query = ([absent_row], None)"

definition fetch_present :: "string \<Rightarrow> Row listing" where
  "fetch_present query = ([present_row], None)"

definition fetch_generic_error :: "string \<Rightarrow> Row listing" where
  "fetch_generic_error query = ([], Some DatabricksError)"

definition main_catalog :: CatalogInfo where
  "main_catalog = \<lparr>CatalogInfo.name = Some ''main'', catalog_type = Some MANAGED_CATALOG\<rparr>"

definition dead_catalog :: CatalogInfo where
  "dead_catalog = \<lparr>CatalogInfo.name = Some ''dead'', catalog_type = Some MANAGED_CATALOG\<rparr>"

definition system_catalog :: CatalogInfo where
  "system_catalog = \<lparr>CatalogInfo.name = Some ''system'', catalog_type = Some SYSTEM_CATALOG\<rparr>"

definition sales_schema :: SchemaInfo where
  "sales_schema = \<lparr>catalog_name = Some ''main'', SchemaInfo.name = Some ''sales'',
      SchemaInfo.full_name = Some ''main.sales''\<rparr>"

definition broken_schema :: SchemaInfo where
  "broken_schema = \<lparr>catalog_name = Some ''main'', SchemaInfo.name = Some ''broken'',
      SchemaInfo.full_name = Some ''main.broken''\<rparr>"

definition access_schema :: SchemaInfo where
  "access_schema = \<lparr>catalog_name = Some ''system'', SchemaInfo.name = Some ''access'',
      SchemaInfo.full_name = Some ''system.access''\<rparr>"

definition orders_table :: TableInfo where
  "orders_table = \<lparr>TableInfo.name = Some ''orders'', TableInfo.full_name = Some ''main.sales.Orders'',
      properties = Some [(''owner'', ''me''), (''upgraded_from'', ''hive_metastore.Sales.orders'')]\<rparr>"

definition items_table :: TableInfo where
  "items_table = \<lparr>TableInfo.name = Some ''items'', TableInfo.full_name = Some ''sales.items'',
      properties = Some [(''upgraded_from'', ''hive_metastore.sales.items'')]\<rparr>"

definition plain_table :: TableInfo where
  "plain_table = \<lparr>TableInfo.name = Some ''plain'', TableInfo.full_name = Some ''main.sales.plain'',
      properties = Some [(''owner'', ''me'')]\<rparr>"

definition nameless_table :: TableInfo where
  "nameless_table = \<lparr>TableInfo.name = Some ''nameless'', TableInfo.full_name = None,
      properties = Some [(''upgraded_from'', ''hive_metastore.sales.nameless'')]\<rparr>"

definition audit_table :: TableInfo where
  "audit_table = \<lparr>TableInfo.name = Some ''audit'', TableInfo.full_name = Some ''system.access.audit'',
      properties = Some [(''upgraded_from'', ''hive_metastore.sales.audit'')]\<rparr>"

definition lost_table :: TableInfo where
  "lost_table = \<lparr>TableInfo.name = Some ''lost'', TableInfo.full_name = Some ''main.broken.lost'',
      properties = Some [(''upgraded_from'', ''hive_metastore.sales.lost'')]\<rparr>"

definition example_ws :: WorkspaceClient where
  "example_ws =
     \<lparr>catalogs_list = ([main_catalog, dead_catalog, system_catalog], None),
      schemas_list = (\<lambda>c. if c = ''main'' then ([sales_schema, broken_schema], None)
                          else if c = ''system'' then ([access_schema], None)
                          else ([], Some NotFound)),
      tables_list = (\<lambda>c s. if c = ''main'' \<and> s = ''sales''
                              then ([orders_table, items_table, plain_table, nameless_table], None)
                            else if c = ''system'' \<and> s = ''access'' then ([audit_table], None)
                            else ([lost_table], Some DatabricksError))\<rparr>"

definition legacy_orders :: Table where
  "legacy_orders = \<lparr>database = ''Sales'', name = ''Orders'', key = ''hive_metastore.sales.orders''\<rparr>"

definition legacy_items :: Table where
  "legacy_items = \<lparr>database = ''sales'', name = ''items'', key = ''hive_metastore.sales.items''\<rparr>"

definition legacy_plain :: Table where
  "legacy_plain = \<lparr>database = ''sales'', name = ''plain'', key = ''hive_metastore.sales.plain''\<rparr>"

definition orders_table_again :: TableInfo where
  "orders_table_again = \<lparr>TableInfo.name = Some ''orders'',
      TableInfo.full_name = Some ''main.sales.orders'',
      properties = Some [(''upgraded_from'', ''hive_metastore.sales.orders_old'')]\<rparr>"

definition twice_ws :: WorkspaceClient where
  "twice_ws =
     \<lparr>catalogs_list = ([main_catalog], None),
      schemas_list = (\<lambda>c. if c = ''main'' then ([sales_schema], None) else ([], Some NotFound)),
      tables_list = (\<lambda>c s. if c = ''main'' \<and> s = ''sales''
                              then ([orders_table, orders_table_again], None)
                            else ([], Some NotFound))\<rparr>"

definition pending_plain :: TableMigrationStatus where
  "pending_plain =
     \<lparr>src_schema = ''sales'', src_table = ''plain'', dst_catalog = None,
      dst_schema = None, dst_table = None, update_ts = Some ''1.0''\<rparr>"

definition mixed_case_empty :: TableMigrationStatus where
  "mixed_case_empty =
     \<lparr>src_schema = ''Sales'', src_table = ''Orders'', dst_catalog = Some ''main'',
      dst_schema = Some ''sales'', dst_table = Some '''', update_ts = Some ''1.0''\<rparr>"

definition partial_ws :: WorkspaceClient where
  "partial_ws =
     \<lparr>catalogs_list = ([main_catalog], None),
      schemas_list = (\<lambda>c. ([sales_schema], Some DatabricksError)),
      tables_list = (\<lambda>c s. if c = ''main'' \<and> s = ''sales''
                              then ([orders_table], None)
                            else ([], Some NotFound))\<rparr>"


section \<open>Facts about strings\<close>

lemma lower_char_idem: "lower_char (lower_char c) = lower_char c"
  by (simp add: lower_char_def Let_def)

lemma lower_idem: "lower (lower s) = lower s"
  by (simp add: lower_def lower_char_idem)

lemma lower_append: "lower (s @ t) = lower s @ lower t"
  by (simp add: lower_def)


section \<open>Facts about the index\<close>

lemma index_lookup:
  assumes "r \<in> set tables"
    and "\<forall>r' \<in> set tables. kf r' = kf r \<longrightarrow> r' = r"
  shows "map_of (foldl (\<lambda>idx ms. AList.update (kf ms) ms idx) acc tables) (kf r) = Some r"
  using assms
  by (induction tables rule: rev_induct) (auto simp: update_conv')

lemma truthy_iff: "truthy x \<longleftrightarrow> (x \<noteq> None \<and> x \<noteq> Some [])"
  by (cases x) auto


section \<open>Claims about the index\<close>

text \<open>
  C1, as amended. The claim reads: for every collection of records and every record
  \<open>r\<close> in it, \<open>is_migrated(r.src_schema, r.src_table)\<close> on the index built from the
  collection equals "\<open>r.dst_table\<close> is set". The constructor stores each record under
  the key as the record has it, the lookup lower-cases its arguments, a later record
  with the same key replaces an earlier one, and \<open>get\<close> tests the truth value of
  \<open>dst_table\<close>. So the equation holds for a record \<open>r\<close> of the collection whose key is
  lower-cased and shared with no other record of the collection, with "set" read as
  "set to a non-empty string".
\<close>

theorem index_is_migrated_iff:
  assumes "r \<in> set tables"
    and "lower (src_schema r) = src_schema r" and "lower (src_table r) = src_table r"
    and "\<forall>r' \<in> set tables. src_schema r' = src_schema r \<and> src_table r' = src_table r \<longrightarrow> r' = r"
  shows "index_is_migrated (TableMigrationIndex tables) (src_schema r) (src_table r)
         = (dst_table r \<noteq> None \<and> dst_table r \<noteq> Some [])"
proof -
  let ?kf = "\<lambda>ms. (src_schema ms, src_table ms)"
  have "\<forall>r' \<in> set tables. ?kf r' = ?kf r \<longrightarrow> r' = r"
    using assms(4) by simp
  with assms(1) have "map_of (TableMigrationIndex tables) (?kf r) = Some r"
    unfolding TableMigrationIndex_def by (rule index_lookup)
  then show ?thesis
    using assms(2,3) by (simp add: index_is_migrated_def index_get_def truthy_iff)
qed

theorem index_is_migrated_iff_witness:
  "index_is_migrated (TableMigrationIndex [migrated_orders, pending_items])
     (src_schema migrated_orders) (src_table migrated_orders)
   \<and> \<not> index_is_migrated (TableMigrationIndex [migrated_orders, pending_items])
     (src_schema pending_items) (src_table pending_items)"
proof -
  let ?tables = "[migrated_orders, pending_items]"
  have m1: "migrated_orders \<in> set ?tables" and p1: "pending_items \<in> set ?tables"
    by simp_all
  have m2: "lower (src_schema migrated_orders) = src_schema migrated_orders"
    and m3: "lower (src_table migrated_orders) = src_table migrated_orders"
    and p2: "lower (src_schema pending_items) = src_schema pending_items"
    and p3: "lower (src_table pending_items) = src_table pending_items"
    by code_simp+
  have m4: "\<forall>r' \<in> set ?tables. src_schema r' = src_schema migrated_orders
              \<and> src_table r' = src_table migrated_orders \<longrightarrow> r' = migrated_orders"
    by (simp add: migrated_orders_def pending_items_def)
  have p4: "\<forall>r' \<in> set ?tables. src_schema r' = src_schema pending_items
              \<and> src_table r' = src_table pending_items \<longrightarrow> r' = pending_items"
    by (simp add: migrated_orders_def pending_items_def)
  have md: "dst_table migrated_orders \<noteq> None \<and> dst_table migrated_orders \<noteq> Some []"
    by (simp add: migrated_orders_def)
  have pd: "dst_table pending_items = None"
    by (simp add: pending_items_def)
  show ?thesis
    using index_is_migrated_iff [OF m1 m2 m3 m4] index_is_migrated_iff [OF p1 p2 p3 p4] md pd
    by simp
qed

text \<open>
  C1 as stated fails at three inputs: a record whose destination table is the empty
  string, a record whose key is not lower-cased, and the first of two records with one
  key. In each the destination table is set and \<open>is_migrated\<close> is false.
\<close>

theorem index_is_migrated_counterexample:
  "\<not> (index_is_migrated (TableMigrationIndex [empty_dst_orders])
          (src_schema empty_dst_orders) (src_table empty_dst_orders)
        = (dst_table empty_dst_orders \<noteq> None))
   \<and> \<not> (index_is_migrated (TableMigrationIndex [mixed_case_orders])
          (src_schema mixed_case_orders) (src_table mixed_case_orders)
        = (dst_table mixed_case_orders \<noteq> None))
   \<and> \<not> (index_is_migrated (TableMigrationIndex [migrated_orders, pending_orders])
          (src_schema migrated_orders) (src_table migrated_orders)
        = (dst_table migrated_orders \<noteq> None))"
  by code_simp

text \<open>
  C5: \<open>get\<close> returns absent when the index has no record for the lower-cased key, and
  when it has one whose destination table is unset; when \<open>get\<close> returns a record, it
  is the record of the lower-cased key and its destination table is set.
\<close>

theorem index_get_absent:
  "(map_of idx (lower schema, lower table) = None \<longrightarrow> index_get idx schema table = None)
   \<and> (\<forall>r. map_of idx (lower schema, lower table) = Some r \<and> dst_table r = None
          \<longrightarrow> index_get idx schema table = None)
   \<and> (\<forall>r. index_get idx schema table = Some r
          \<longrightarrow> map_of idx (lower schema, lower table) = Some r \<and> dst_table r \<noteq> None)"
  by (auto simp: index_get_def truthy_iff split: option.splits if_splits)

theorem index_get_absent_witness:
  "map_of (TableMigrationIndex [migrated_orders, pending_items]) (lower ''HR'', lower ''Staff'')
     = None
   \<and> index_get (TableMigrationIndex [migrated_orders, pending_items]) ''HR'' ''Staff'' = None
   \<and> map_of (TableMigrationIndex [migrated_orders, pending_items])
       (lower ''Sales'', lower ''Items'') = Some pending_items
   \<and> dst_table pending_items = None
   \<and> index_get (TableMigrationIndex [migrated_orders, pending_items]) ''Sales'' ''Items'' = None
   \<and> index_get (TableMigrationIndex [migrated_orders, pending_items]) ''Sales'' ''Orders''
       = Some migrated_orders
   \<and> map_of (TableMigrationIndex [migrated_orders, pending_items])
       (lower ''Sales'', lower ''Orders'') = Some migrated_orders
   \<and> dst_table migrated_orders \<noteq> None"
proof -
  let ?idx = "TableMigrationIndex [migrated_orders, pending_items]"
  have a: "map_of ?idx (lower ''HR'', lower ''Staff'') = None"
    by code_simp
  have b: "map_of ?idx (lower ''Sales'', lower ''Items'') = Some pending_items"
    by code_simp
  have c: "dst_table pending_items = None"
    by code_simp
  have d: "index_get ?idx ''Sales'' ''Orders'' = Some migrated_orders"
    by code_simp
  show ?thesis
    using a b c d index_get_absent [of ?idx "''HR''" "''Staff''"]
      index_get_absent [of ?idx "''Sales''" "''Items''"]
      index_get_absent [of ?idx "''Sales''" "''Orders''"]
    by blast
qed

text \<open>
  C8: the lookups do not depend on the case of the caller's arguments:
  \<open>is_migrated\<close> and \<open>get\<close> give the same answer for \<open>(schema, table)\<close> and for
  \<open>(schema.lower(), table.lower())\<close>.
\<close>

theorem index_case_insensitive:
  "index_is_migrated idx schema table = index_is_migrated idx (lower schema) (lower table)
   \<and> index_get idx schema table = index_get idx (lower schema) (lower table)"
  by (simp add: index_is_migrated_def index_get_def lower_idem)

text \<open>
  C10, as amended. The claim reads: for every index that contains a record whose
  destination table is the empty string, \<open>get\<close> on the key of that record returns
  absent and \<open>is_migrated\<close> returns false. The index stores a record under its key as
  the record has it and \<open>get\<close> looks up the lower-cased key, so the claim holds for a
  record whose key is lower-cased: when the index holds, under a lower-cased key, a
  record whose destination table is the empty string, whatever its other destination
  fields, \<open>get\<close> on that key returns absent and \<open>is_migrated\<close> returns false, as for an
  unset destination table.
\<close>

theorem index_empty_destination:
  assumes "map_of idx (src_schema r, src_table r) = Some r"
    and "lower (src_schema r) = src_schema r" and "lower (src_table r) = src_table r"
    and "dst_table r = Some []"
  shows "index_get idx (src_schema r) (src_table r) = None
         \<and> \<not> index_is_migrated idx (src_schema r) (src_table r)"
  using assms by (simp add: index_is_migrated_def index_get_def)

theorem index_empty_destination_witness:
  "index_get (TableMigrationIndex [pending_items, empty_dst_orders])
     (src_schema empty_dst_orders) (src_table empty_dst_orders) = None
   \<and> \<not> index_is_migrated (TableMigrationIndex [pending_items, empty_dst_orders])
         (src_schema empty_dst_orders) (src_table empty_dst_orders)"
proof -
  have a: "map_of (TableMigrationIndex [pending_items, empty_dst_orders])
             (src_schema empty_dst_orders, src_table empty_dst_orders) = Some empty_dst_orders"
    by code_simp
  have b: "lower (src_schema empty_dst_orders) = src_schema empty_dst_orders"
    and c: "lower (src_table empty_dst_orders) = src_table empty_dst_orders"
    by code_simp+
  have d: "dst_table empty_dst_orders = Some []"
    by code_simp
  show ?thesis
    using index_empty_destination [OF a b c d] .
qed

text \<open>
  C10 as stated fails at an index that holds a record with an empty destination table
  under a key that is not lower-cased, beside a migrated record under the lower-cased
  key: \<open>get\<close> on the key of the first returns the second, and \<open>is_migrated\<close> is true.
\<close>

theorem index_empty_destination_counterexample:
  "map_of (TableMigrationIndex [mixed_case_empty, migrated_orders])
     (src_schema mixed_case_empty, src_table mixed_case_empty) = Some mixed_case_empty
   \<and> dst_table mixed_case_empty = Some []
   \<and> index_get (TableMigrationIndex [mixed_case_empty, migrated_orders])
       (src_schema mixed_case_empty) (src_table mixed_case_empty) = Some migrated_orders
   \<and> index_is_migrated (TableMigrationIndex [mixed_case_empty, migrated_orders])
       (src_schema mixed_case_empty) (src_table mixed_case_empty)"
  by code_simp


section \<open>More facts about strings\<close>

lemma lower_char_not_N: "lower_char c \<noteq> CHR ''N''"
proof
  assume eq: "lower_char c = CHR ''N''"
  show False
  proof (cases "65 \<le> (of_char c :: nat) \<and> (of_char c :: nat) \<le> 90")
    case True
    with eq have "char_of ((of_char c :: nat) + 32) = CHR ''N''"
      by (simp add: lower_char_def)
    then have "(of_char (char_of ((of_char c :: nat) + 32)) :: nat) = of_char CHR ''N''"
      by simp
    with True show False
      by simp
  next
    case False
    with eq have "c = CHR ''N''"
      by (simp add: lower_char_def)
    with False show False
      by simp
  qed
qed

lemma N_notin_lower: "CHR ''N'' \<notin> set (lower s)"
  using lower_char_not_N by (fastforce simp: lower_def)

lemma sublist_hd_in_set: "sublist (x # xs) ys \<Longrightarrow> x \<in> set ys"
  by (auto simp: sublist_def)

lemma lower_None: "lower ''None'' = ''none''"
  by code_simp

lemma lower_dot: "lower ''.'' = ''.''"
  by code_simp


section \<open>Claims about the record\<close>

text \<open>
  C9, as amended. The claim reads: with the three destination fields set,
  \<open>destination()\<close> is the lower-cased \<open>catalog.schema.table\<close>; with a field unset
  it is a string with the literal \<open>None\<close> in place of the field. The whole string is
  lower-cased after the interpolation, so the marker of an unset field is \<open>none\<close>:
  \<open>destination()\<close> is the dotted string of the three fields, each lower-cased when set
  and \<open>none\<close> when unset; with all three set it is the lower-cased
  \<open>catalog.schema.table\<close>, with all three unset it is \<open>none.none.none\<close>, and the text
  \<open>None\<close> never occurs in it.
\<close>

theorem destination_markers:
  "destination r
     = (case dst_catalog r of None \<Rightarrow> ''none'' | Some c \<Rightarrow> lower c) @ ''.''
       @ (case dst_schema r of None \<Rightarrow> ''none'' | Some s \<Rightarrow> lower s) @ ''.''
       @ (case dst_table r of None \<Rightarrow> ''none'' | Some t \<Rightarrow> lower t)
   \<and> (\<forall>c s t. dst_catalog r = Some c \<and> dst_schema r = Some s \<and> dst_table r = Some t
         \<longrightarrow> destination r = lower (c @ ''.'' @ s @ ''.'' @ t))
   \<and> (dst_catalog r = None \<and> dst_schema r = None \<and> dst_table r = None
         \<longrightarrow> destination r = ''none.none.none'')
   \<and> \<not> sublist ''None'' (destination r)"
proof -
  have fmt: "lower (format_opt x) = (case x of None \<Rightarrow> ''none'' | Some c \<Rightarrow> lower c)" for x
    by (cases x) (simp_all add: lower_None)
  have eq: "destination r
     = (case dst_catalog r of None \<Rightarrow> ''none'' | Some c \<Rightarrow> lower c) @ ''.''
       @ (case dst_schema r of None \<Rightarrow> ''none'' | Some s \<Rightarrow> lower s) @ ''.''
       @ (case dst_table r of None \<Rightarrow> ''none'' | Some t \<Rightarrow> lower t)"
    unfolding destination_def lower_append fmt lower_dot by (rule refl)
  have no: "\<not> sublist ''None'' (destination r)"
    using sublist_hd_in_set [of "CHR ''N''" "''one''" "destination r"] N_notin_lower
    unfolding destination_def by blast
  have all: "destination r = lower (c @ ''.'' @ s @ ''.'' @ t)"
    if "dst_catalog r = Some c \<and> dst_schema r = Some s \<and> dst_table r = Some t" for c s t
    using that by (simp add: destination_def)
  have none: "destination r = ''none.none.none''"
    if "dst_catalog r = None \<and> dst_schema r = None \<and> dst_table r = None"
    using that unfolding eq by simp
  show ?thesis
    using eq no all none by blast
qed

theorem destination_markers_witness:
  "destination mixed_case_orders = lower (''main'' @ ''.'' @ ''sales'' @ ''.'' @ ''orders'')
   \<and> destination pending_items = ''none.none.none''
   \<and> \<not> sublist ''None'' (destination pending_items)"
proof -
  have a: "dst_catalog mixed_case_orders = Some ''main'' \<and> dst_schema mixed_case_orders = Some ''sales''
           \<and> dst_table mixed_case_orders = Some ''orders''"
    by (simp add: mixed_case_orders_def)
  have b: "dst_catalog pending_items = None \<and> dst_schema pending_items = None
           \<and> dst_table pending_items = None"
    by (simp add: pending_items_def)
  show ?thesis
    using a b destination_markers [of mixed_case_orders] destination_markers [of pending_items]
    by blast
qed

text \<open>
  C9 as stated fails at a record with no destination field set: the result is
  \<open>none.none.none\<close> and does not contain the text \<open>None\<close>.
\<close>

theorem destination_markers_counterexample:
  "dst_catalog pending_orders = None \<and> dst_schema pending_orders = None
   \<and> dst_table pending_orders = None
   \<and> destination pending_orders = ''none.none.none''
   \<and> \<not> sublist ''None'' (destination pending_orders)"
  by code_simp


section \<open>Claims about the live check\<close>

lemma is_migrated_rows_iff:
  "is_migrated_rows results
     \<longleftrightarrow> (\<exists>result \<in> set results. \<not> sublist ''does not have property'' (row_value result))"
  by (induction results) auto

text \<open>
  C2: the live check of one table returns true when the query ends with not-found,
  false when the query succeeds and every row reports the marker property as absent,
  and true when the query succeeds and a row holds the marker property.
\<close>

theorem is_migrated_outcomes:
  assumes "fetch (show_tblproperties escape_sql_identifier schema table) = (results, err)"
  shows "(err = Some NotFound \<longrightarrow> is_migrated escape_sql_identifier fetch schema table = Inr True)
    \<and> (err = None \<and> (\<forall>result \<in> set results. sublist ''does not have property'' (row_value result))
         \<longrightarrow> is_migrated escape_sql_identifier fetch schema table = Inr False)
    \<and> (err = None \<and> (\<exists>result \<in> set results. \<not> sublist ''does not have property'' (row_value result))
         \<longrightarrow> is_migrated escape_sql_identifier fetch schema table = Inr True)"
  using assms by (auto simp: is_migrated_def is_migrated_rows_iff)

theorem is_migrated_outcomes_witness:
  "is_migrated id fetch_not_found ''sales'' ''orders'' = Inr True
   \<and> is_migrated id fetch_absent ''sales'' ''orders'' = Inr False
   \<and> is_migrated id fetch_present ''sales'' ''orders'' = Inr True"
proof -
  have a: "fetch_not_found (show_tblproperties id ''sales'' ''orders'') = ([], Some NotFound)"
    by (simp add: fetch_not_found_def)
  have b: "fetch_absent (show_tblproperties id ''sales'' ''orders'') = ([absent_row], None)"
    by (simp add: fetch_absent_def)
  have b': "\<forall>result \<in> set [absent_row]. sublist ''does not have property'' (row_value result)"
    by code_simp
  have c: "fetch_present (show_tblproperties id ''sales'' ''orders'') = ([present_row], None)"
    by (simp add: fetch_present_def)
  have c': "\<exists>result \<in> set [present_row]. \<not> sublist ''does not have property'' (row_value result)"
    by code_simp
  show ?thesis
    using a b b' c c'
      is_migrated_outcomes [where fetch = fetch_not_found and escape_sql_identifier = id
        and schema = "''sales''" and table = "''orders''" and results = "[]"
        and err = "Some NotFound"]
      is_migrated_outcomes [where fetch = fetch_absent and escape_sql_identifier = id
        and schema = "''sales''" and table = "''orders''" and results = "[absent_row]"
        and err = None]
      is_migrated_outcomes [where fetch = fetch_present and escape_sql_identifier = id
        and schema = "''sales''" and table = "''orders''" and results = "[present_row]"
        and err = None]
    by blast
qed


section \<open>Claims about the refresh pass\<close>

lemma is_migrated_error: "is_migrated esc fetch schema table = Inl e \<Longrightarrow> e = DatabricksError"
  by (auto simp: is_migrated_def split: prod.splits option.splits if_splits error.splits)

lemma crawl_loop_Inr:
  "crawl_loop esc fetch rs ts tables = Inr recs
   \<Longrightarrow> length recs = length tables
       \<and> (\<forall>i < length tables. crawl_table esc fetch rs ts (tables ! i) = Inr (recs ! i))"
proof (induction tables arbitrary: recs)
  case Nil
  then show ?case by simp
next
  case (Cons t tables)
  then obtain s ss where s: "crawl_table esc fetch rs ts t = Inr s"
    and ss: "crawl_loop esc fetch rs ts tables = Inr ss" and recs: "recs = s # ss"
    by (auto split: sum.splits)
  from Cons.IH [OF ss] s recs show ?case
    by (auto simp: nth_Cons split: nat.splits)
qed

lemma crawl_loop_completes:
  "(\<forall>t \<in> set tables. \<exists>s. crawl_table esc fetch rs ts t = Inr s)
   \<Longrightarrow> \<exists>recs. crawl_loop esc fetch rs ts tables = Inr recs"
  by (induction tables) (auto split: sum.splits)

lemma crawl_table_completes:
  assumes "map_of rs (key t) \<noteq> None
           \<longrightarrow> is_migrated esc fetch (lower (database t)) (lower (Table.name t)) \<noteq> Inl DatabricksError"
  shows "\<exists>s. crawl_table esc fetch rs ts t = Inr s"
proof (cases "map_of rs (key t)")
  case None
  then show ?thesis by (simp add: crawl_table_def)
next
  case (Some target)
  with assms have "is_migrated esc fetch (lower (database t)) (lower (Table.name t)) \<noteq> Inl DatabricksError"
    by simp
  then obtain b where "is_migrated esc fetch (lower (database t)) (lower (Table.name t)) = Inr b"
    using is_migrated_error by (cases "is_migrated esc fetch (lower (database t)) (lower (Table.name t))") auto
  with Some show ?thesis
    by (cases b) (simp_all add: crawl_table_def Let_def)
qed

lemma crawl_table_cases:
  assumes "crawl_table esc fetch rs ts t = Inr s"
  shows "s = \<lparr>src_schema = lower (database t), src_table = lower (Table.name t),
               dst_catalog = None, dst_schema = None, dst_table = None, update_ts = Some ts\<rparr>
         \<or> (\<exists>target. map_of rs (key t) = Some target
               \<and> length (split CHR ''.'' target) = 3
               \<and> is_migrated esc fetch (lower (database t)) (lower (Table.name t)) = Inr True
               \<and> s = \<lparr>src_schema = lower (database t), src_table = lower (Table.name t),
                       dst_catalog = Some (split CHR ''.'' target ! 0),
                       dst_schema = Some (split CHR ''.'' target ! 1),
                       dst_table = Some (split CHR ''.'' target ! 2), update_ts = Some ts\<rparr>)"
  using assms
  by (auto simp: crawl_table_def Let_def split: option.splits sum.splits bool.splits if_splits)

lemma crawl_table_key:
  "crawl_table esc fetch rs ts t = Inr s
   \<Longrightarrow> src_schema s = lower (database t) \<and> src_table s = lower (Table.name t)
       \<and> update_ts s = Some ts"
  by (auto simp: crawl_table_def Let_def split: option.splits sum.splits bool.splits if_splits)

text \<open>
  C3, as amended. The claim reads: whatever the listings of the metadata store and the
  property queries of the legacy store do, generic remote errors included, a refresh
  pass never raises and yields one record per table of the inventory. The live check
  handles not-found only, so a generic remote error of the property query of a
  candidate table leaves the pass. What holds: whatever the listings do, when the live
  check of no candidate table ends with a generic remote error, the pass completes and
  yields one record per table of the inventory, in its order, under the lower-cased
  schema and table name.
\<close>

theorem crawl_completes:
  assumes "\<forall>table \<in> set all_tables.
             map_of (reverse_seen (get_seen_tables ws)) (key table) \<noteq> None
             \<longrightarrow> is_migrated esc fetch (lower (database table)) (lower (Table.name table))
                   \<noteq> Inl DatabricksError"
  shows "\<exists>recs. crawl ws esc fetch timestamp all_tables = Inr recs
           \<and> length recs = length all_tables
           \<and> (\<forall>i < length all_tables.
                 src_schema (recs ! i) = lower (database (all_tables ! i))
                 \<and> src_table (recs ! i) = lower (Table.name (all_tables ! i)))"
proof -
  let ?rs = "reverse_seen (get_seen_tables ws)"
  have "\<forall>t \<in> set all_tables. \<exists>s. crawl_table esc fetch ?rs timestamp t = Inr s"
    using assms crawl_table_completes by blast
  then obtain recs where recs: "crawl_loop esc fetch ?rs timestamp all_tables = Inr recs"
    using crawl_loop_completes by blast
  from crawl_loop_Inr [OF recs] crawl_table_key
  have "length recs = length all_tables
     \<and> (\<forall>i < length all_tables.
           src_schema (recs ! i) = lower (database (all_tables ! i))
           \<and> src_table (recs ! i) = lower (Table.name (all_tables ! i)))"
    by blast
  with recs show ?thesis
    by (simp add: crawl_def)
qed

theorem crawl_completes_witness:
  "\<exists>recs. crawl example_ws id fetch_not_found ''1.0'' [legacy_orders, legacy_items, legacy_plain]
            = Inr recs
     \<and> length recs = length [legacy_orders, legacy_items, legacy_plain]
     \<and> (\<forall>i < length [legacy_orders, legacy_items, legacy_plain].
           src_schema (recs ! i) = lower (database ([legacy_orders, legacy_items, legacy_plain] ! i))
           \<and> src_table (recs ! i)
               = lower (Table.name ([legacy_orders, legacy_items, legacy_plain] ! i)))"
proof -
  have h: "\<forall>table \<in> set [legacy_orders, legacy_items, legacy_plain].
             map_of (reverse_seen (get_seen_tables example_ws)) (key table) \<noteq> None
             \<longrightarrow> is_migrated id fetch_not_found (lower (database table)) (lower (Table.name table))
                   \<noteq> Inl DatabricksError"
    by code_simp
  show ?thesis
    using crawl_completes [OF h, of "''1.0''"] .
qed

text \<open>
  C3 as stated fails at one legacy table with a candidate match whose property query
  raises a generic remote error: the pass ends with that error.
\<close>

theorem crawl_generic_error_counterexample:
  "crawl example_ws id fetch_generic_error ''1.0'' [legacy_orders] = Inl DatabricksError"
  by code_simp

text \<open>
  C4: in a pass that completes, the record of a legacy table whose candidate match has
  a destination identity that does not split into three parts at the dots, and whose
  live check confirms the migration, has every destination field unset; and a record
  with a destination field set has all three set, to the three parts of the
  destination identity of its candidate match, in the order catalog, schema, table.
\<close>

theorem crawl_malformed_destination:
  assumes "crawl ws esc fetch timestamp all_tables = Inr recs"
    and "i < length all_tables"
  shows "(\<forall>target. map_of (reverse_seen (get_seen_tables ws)) (key (all_tables ! i)) = Some target
            \<and> length (split CHR ''.'' target) \<noteq> 3
            \<and> is_migrated esc fetch (lower (database (all_tables ! i)))
                 (lower (Table.name (all_tables ! i))) = Inr True
          \<longrightarrow> recs ! i = \<lparr>src_schema = lower (database (all_tables ! i)),
                          src_table = lower (Table.name (all_tables ! i)),
                          dst_catalog = None, dst_schema = None, dst_table = None,
                          update_ts = Some timestamp\<rparr>)
       \<and> (dst_catalog (recs ! i) \<noteq> None \<or> dst_schema (recs ! i) \<noteq> None
            \<or> dst_table (recs ! i) \<noteq> None
          \<longrightarrow> (\<exists>target c s t.
                 map_of (reverse_seen (get_seen_tables ws)) (key (all_tables ! i)) = Some target
                 \<and> split CHR ''.'' target = [c, s, t]
                 \<and> dst_catalog (recs ! i) = Some c \<and> dst_schema (recs ! i) = Some s
                 \<and> dst_table (recs ! i) = Some t))"
proof -
  let ?rs = "reverse_seen (get_seen_tables ws)"
  let ?t = "all_tables ! i"
  have step: "crawl_table esc fetch ?rs timestamp ?t = Inr (recs ! i)"
    using assms crawl_loop_Inr [of esc fetch ?rs timestamp all_tables recs]
    by (simp add: crawl_def)
  have three: "xs = [xs ! 0, xs ! 1, xs ! 2]" if "length xs = 3" for xs :: "string list"
    using that by (auto simp: numeral_3_eq_3 length_Suc_conv)
  have a: "recs ! i = \<lparr>src_schema = lower (database ?t), src_table = lower (Table.name ?t),
                        dst_catalog = None, dst_schema = None, dst_table = None,
                        update_ts = Some timestamp\<rparr>"
    if "map_of ?rs (key ?t) = Some target" and "length (split CHR ''.'' target) \<noteq> 3"
      and "is_migrated esc fetch (lower (database ?t)) (lower (Table.name ?t)) = Inr True"
    for target
    using step that by (simp add: crawl_table_def)
  have b: "\<exists>target c s t. map_of ?rs (key ?t) = Some target
             \<and> split CHR ''.'' target = [c, s, t]
             \<and> dst_catalog (recs ! i) = Some c \<and> dst_schema (recs ! i) = Some s
             \<and> dst_table (recs ! i) = Some t"
    if pop: "dst_catalog (recs ! i) \<noteq> None \<or> dst_schema (recs ! i) \<noteq> None
             \<or> dst_table (recs ! i) \<noteq> None"
  proof -
    from crawl_table_cases [OF step] pop obtain target
      where tg: "map_of ?rs (key ?t) = Some target"
      and len: "length (split CHR ''.'' target) = 3"
      and r: "recs ! i = \<lparr>src_schema = lower (database ?t), src_table = lower (Table.name ?t),
                dst_catalog = Some (split CHR ''.'' target ! 0),
                dst_schema = Some (split CHR ''.'' target ! 1),
                dst_table = Some (split CHR ''.'' target ! 2), update_ts = Some timestamp\<rparr>"
      by auto
    have "dst_catalog (recs ! i) = Some (split CHR ''.'' target ! 0)"
      and "dst_schema (recs ! i) = Some (split CHR ''.'' target ! 1)"
      and "dst_table (recs ! i) = Some (split CHR ''.'' target ! 2)"
      by (simp_all add: r)
    with three [OF len] tg show ?thesis
      by blast
  qed
  from a b show ?thesis
    by blast
qed

theorem crawl_malformed_destination_witness:
  "[migrated_orders, pending_items, pending_plain] ! 1
     = \<lparr>src_schema = lower (database ([legacy_orders, legacy_items, legacy_plain] ! 1)),
        src_table = lower (Table.name ([legacy_orders, legacy_items, legacy_plain] ! 1)),
        dst_catalog = None, dst_schema = None, dst_table = None, update_ts = Some ''1.0''\<rparr>
   \<and> (\<exists>target c s t.
         map_of (reverse_seen (get_seen_tables example_ws))
           (key ([legacy_orders, legacy_items, legacy_plain] ! 0)) = Some target
         \<and> split CHR ''.'' target = [c, s, t]
         \<and> dst_catalog ([migrated_orders, pending_items, pending_plain] ! 0) = Some c
         \<and> dst_schema ([migrated_orders, pending_items, pending_plain] ! 0) = Some s
         \<and> dst_table ([migrated_orders, pending_items, pending_plain] ! 0) = Some t)"
proof -
  let ?all = "[legacy_orders, legacy_items, legacy_plain]"
  let ?recs = "[migrated_orders, pending_items, pending_plain]"
  have run: "crawl example_ws id fetch_present ''1.0'' ?all = Inr ?recs"
    by code_simp
  have one: "(1::nat) < length ?all" and zero: "(0::nat) < length ?all"
    by simp_all
  have cand: "map_of (reverse_seen (get_seen_tables example_ws)) (key (?all ! 1))
                = Some ''sales.items''
              \<and> length (split CHR ''.'' ''sales.items'') \<noteq> 3
              \<and> is_migrated id fetch_present (lower (database (?all ! 1)))
                   (lower (Table.name (?all ! 1))) = Inr True"
    by code_simp
  have pop: "dst_catalog (?recs ! 0) \<noteq> None"
    by (simp add: migrated_orders_def)
  show ?thesis
    using crawl_malformed_destination [OF run one] crawl_malformed_destination [OF run zero]
      cand pop
    by blast
qed


section \<open>Facts about the scan\<close>

lemma see_table_entry:
  "see_table acc t = (case seen_entry t of None \<Rightarrow> acc | Some (k, v) \<Rightarrow> AList.update k v acc)"
  by (auto simp: see_table_def seen_entry_def back_reference_def split: option.splits)

lemma get_seen_tables_loop_scanned:
  "get_seen_tables_loop ws schemas acc = foldl see_table acc (scanned_tables_loop ws schemas)"
  by (induction schemas arbitrary: acc)
    (auto split: option.splits prod.splits error.splits)

lemma get_seen_tables_scanned:
  "get_seen_tables ws = foldl see_table [] (scanned_tables ws)"
  by (simp add: get_seen_tables_def scanned_tables_def get_seen_tables_loop_scanned)

lemma set_iter_catalogs:
  "set (iter_catalogs ws)
     = {c \<in> set (fst (catalogs_list ws)). catalog_type c \<notin> skip_catalog_types}"
  by (cases "catalogs_list ws") (simp add: iter_catalogs_def split: option.splits)

lemma iter_schemas_loop_Cons:
  "iter_schemas_loop ws (c # cats)
     = (case CatalogInfo.name c of
          None \<Rightarrow> iter_schemas_loop ws cats
        | Some cname \<Rightarrow> fst (schemas_list ws cname) @ iter_schemas_loop ws cats)"
  by (cases "CatalogInfo.name c")
    (simp_all split: prod.splits option.splits error.splits)

lemma mem_iter_schemas_loop:
  "s \<in> set (iter_schemas_loop ws cats)
   \<longleftrightarrow> (\<exists>c \<in> set cats. \<exists>cname. CatalogInfo.name c = Some cname
          \<and> s \<in> set (fst (schemas_list ws cname)))"
proof (induction cats)
  case Nil
  show ?case by simp
next
  case (Cons c cats)
  show ?case
    unfolding iter_schemas_loop_Cons
    by (cases "CatalogInfo.name c") (auto simp: Cons.IH)
qed

lemma scanned_tables_loop_Cons:
  "scanned_tables_loop ws (s # schemas)
     = (case catalog_name s of
          None \<Rightarrow> []
        | Some cn \<Rightarrow>
            (case SchemaInfo.name s of
               None \<Rightarrow> []
             | Some sn \<Rightarrow> if snd (tables_list ws cn sn) = None then fst (tables_list ws cn sn) else []))
       @ scanned_tables_loop ws schemas"
  by (simp split: option.splits prod.splits)

lemma mem_scanned_tables_loop:
  "t \<in> set (scanned_tables_loop ws schemas)
   \<longleftrightarrow> (\<exists>s \<in> set schemas. \<exists>cn sn ts. catalog_name s = Some cn \<and> SchemaInfo.name s = Some sn
          \<and> tables_list ws cn sn = (ts, None) \<and> t \<in> set ts)"
proof (induction schemas)
  case Nil
  show ?case by simp
next
  case (Cons s schemas)
  have head: "t \<in> set (case catalog_name s of
          None \<Rightarrow> []
        | Some cn \<Rightarrow>
            (case SchemaInfo.name s of
               None \<Rightarrow> []
             | Some sn \<Rightarrow> if snd (tables_list ws cn sn) = None then fst (tables_list ws cn sn) else []))
      \<longleftrightarrow> (\<exists>cn sn ts. catalog_name s = Some cn \<and> SchemaInfo.name s = Some sn
          \<and> tables_list ws cn sn = (ts, None) \<and> t \<in> set ts)"
    by (cases "catalog_name s"; cases "SchemaInfo.name s") (auto simp: prod_eq_iff)
  show ?case
    unfolding scanned_tables_loop_Cons set_append Un_iff head Cons.IH
    by auto
qed

lemma listed_iff_scanned: "listed ws t \<longleftrightarrow> t \<in> set (scanned_tables ws)"
proof
  assume "listed ws t"
  then obtain catalog cname schema cn sn tables
    where c: "catalog \<in> set (fst (catalogs_list ws))" "catalog_type catalog \<notin> skip_catalog_types"
      "CatalogInfo.name catalog = Some cname"
    and s: "schema \<in> set (fst (schemas_list ws cname))"
      "catalog_name schema = Some cn" "SchemaInfo.name schema = Some sn"
    and t: "tables_list ws cn sn = (tables, None)" "t \<in> set tables"
    unfolding listed_def by blast
  from c have "catalog \<in> set (iter_catalogs ws)"
    by (simp add: set_iter_catalogs)
  with c s have "schema \<in> set (iter_schemas ws)"
    unfolding iter_schemas_def mem_iter_schemas_loop by blast
  with s t show "t \<in> set (scanned_tables ws)"
    unfolding scanned_tables_def mem_scanned_tables_loop by blast
next
  assume "t \<in> set (scanned_tables ws)"
  then obtain schema cn sn tables where sch: "schema \<in> set (iter_schemas ws)"
    and s: "catalog_name schema = Some cn" "SchemaInfo.name schema = Some sn"
    and t: "tables_list ws cn sn = (tables, None)" "t \<in> set tables"
    unfolding scanned_tables_def mem_scanned_tables_loop by blast
  from sch obtain catalog cname where "catalog \<in> set (iter_catalogs ws)"
    and c: "CatalogInfo.name catalog = Some cname" "schema \<in> set (fst (schemas_list ws cname))"
    unfolding iter_schemas_def mem_iter_schemas_loop by blast
  then have "catalog \<in> set (fst (catalogs_list ws))" "catalog_type catalog \<notin> skip_catalog_types"
    by (simp_all add: set_iter_catalogs)
  with c s t show "listed ws t"
    unfolding listed_def by blast
qed

lemma map_of_see_table:
  "map_of (see_table acc t)
     = (case seen_entry t of None \<Rightarrow> map_of acc | Some (k, v) \<Rightarrow> (map_of acc)(k \<mapsto> v))"
  by (cases "seen_entry t") (auto simp: see_table_entry update_conv')

lemma seen_entry_iff:
  "seen_entry t = Some (k, v)
   \<longleftrightarrow> (\<exists>fname up. back_reference t = Some up \<and> TableInfo.full_name t = Some fname
          \<and> fname \<noteq> [] \<and> k = lower fname \<and> v = lower up)"
  by (cases "back_reference t"; cases "TableInfo.full_name t") (auto simp: seen_entry_def)

lemma foldl_see_table_snoc:
  "map_of (foldl see_table acc (xs @ [x]))
     = (case seen_entry x of
          None \<Rightarrow> map_of (foldl see_table acc xs)
        | Some (k, v) \<Rightarrow> (map_of (foldl see_table acc xs))(k \<mapsto> v))"
  by (simp only: foldl_append foldl_Cons foldl_Nil map_of_see_table)


lemma foldl_see_table_sound:
  "map_of (foldl see_table acc ts) k = Some v
   \<Longrightarrow> map_of acc k = Some v \<or> (\<exists>t \<in> set ts. seen_entry t = Some (k, v))"
proof (induction ts rule: rev_induct)
  case Nil
  then show ?case by simp
next
  case (snoc x xs)
  have step: "map_of (foldl see_table acc xs) k = Some v \<or> seen_entry x = Some (k, v)"
  proof (cases "seen_entry x")
    case None
    with snoc.prems show ?thesis
      unfolding foldl_see_table_snoc by simp
  next
    case (Some kv)
    obtain k' v' where kv: "kv = (k', v')" by (cases kv)
    from snoc.prems have "((map_of (foldl see_table acc xs))(k' \<mapsto> v')) k = Some v"
      unfolding foldl_see_table_snoc Some kv by simp
    then show ?thesis
      unfolding Some kv by (cases "k' = k") simp_all
  qed
  then show ?case
  proof
    assume "map_of (foldl see_table acc xs) k = Some v"
    from snoc.IH [OF this] show ?thesis by auto
  next
    assume "seen_entry x = Some (k, v)"
    then show ?thesis by simp
  qed
qed


lemma foldl_see_table_complete:
  assumes "t \<in> set ts" and "seen_entry t = Some (k, v)"
    and "\<forall>t' \<in> set ts. \<forall>v'. seen_entry t' = Some (k, v') \<longrightarrow> v' = v"
  shows "map_of (foldl see_table acc ts) k = Some v"
  using assms
proof (induction ts rule: rev_induct)
  case Nil
  then show ?case by simp
next
  case (snoc x xs)
  have uniq: "\<forall>t' \<in> set xs. \<forall>v'. seen_entry t' = Some (k, v') \<longrightarrow> v' = v"
    using snoc.prems(3) by simp
  have last: "seen_entry x = Some (k, v') \<Longrightarrow> v' = v" for v'
    using snoc.prems(3) by simp
  have rest: "map_of (foldl see_table acc xs) k = Some v" if "seen_entry x \<noteq> Some (k, v)"
  proof -
    from that snoc.prems(1,2) have "t \<in> set xs" by auto
    from snoc.IH [OF this snoc.prems(2) uniq] show ?thesis .
  qed
  show ?case
  proof (cases "seen_entry x")
    case None
    then have "map_of (foldl see_table acc xs) k = Some v"
      using rest by simp
    with None show ?thesis
      unfolding foldl_see_table_snoc by simp
  next
    case (Some kv)
    obtain k' v' where kv: "kv = (k', v')" by (cases kv)
    show ?thesis
    proof (cases "k' = k")
      case True
      with Some kv last have "v' = v" by simp
      with True show ?thesis
        unfolding foldl_see_table_snoc Some kv by simp
    next
      case False
      with Some kv have "seen_entry x \<noteq> Some (k, v)" by simp
      from rest [OF this] False show ?thesis
        unfolding foldl_see_table_snoc Some kv by simp
    qed
  qed
qed

lemma foldl_see_table_key:
  assumes "t \<in> set ts" and "seen_entry t = Some (k, v)"
  shows "\<exists>v'. map_of (foldl see_table acc ts) k = Some v'"
  using assms
proof (induction ts rule: rev_induct)
  case Nil
  then show ?case by simp
next
  case (snoc x xs)
  show ?case
  proof (cases "seen_entry x")
    case None
    with snoc.prems have "t \<in> set xs" by auto
    from snoc.IH [OF this snoc.prems(2)] None show ?thesis
      unfolding foldl_see_table_snoc by simp
  next
    case (Some kv)
    obtain k' v' where kv: "kv = (k', v')" by (cases kv)
    show ?thesis
    proof (cases "k' = k")
      case True
      then show ?thesis
        unfolding foldl_see_table_snoc Some kv by simp
    next
      case False
      with snoc.prems Some kv have "t \<in> set xs" by auto
      from snoc.IH [OF this snoc.prems(2)] False show ?thesis
        unfolding foldl_see_table_snoc Some kv by simp
    qed
  qed
qed

lemma foldl_see_table_untouched:
  "\<forall>t \<in> set ts. \<forall>v. seen_entry t \<noteq> Some (k, v)
   \<Longrightarrow> map_of (foldl see_table acc ts) k = map_of acc k"
proof (induction ts rule: rev_induct)
  case Nil
  show ?case by simp
next
  case (snoc x xs)
  have rest: "map_of (foldl see_table acc xs) k = map_of acc k"
    using snoc by simp
  have last: "\<forall>v. seen_entry x \<noteq> Some (k, v)"
    using snoc.prems by simp
  show ?case
  proof (cases "seen_entry x")
    case None
    with rest show ?thesis
      unfolding foldl_see_table_snoc by simp
  next
    case (Some kv)
    obtain k' v' where kv: "kv = (k', v')" by (cases kv)
    with last Some have "k' \<noteq> k" by auto
    with rest show ?thesis
      unfolding foldl_see_table_snoc Some kv by simp
  qed
qed

lemma foldl_see_table_last:
  assumes "seen_entry t = Some (k, v)"
    and "\<forall>t' \<in> set after. \<forall>v'. seen_entry t' \<noteq> Some (k, v')"
  shows "map_of (foldl see_table acc (before @ t # after)) k = Some v"
proof -
  have "map_of (foldl see_table acc (before @ t # after)) k
          = map_of (see_table (foldl see_table acc before) t) k"
    using foldl_see_table_untouched [OF assms(2)] by simp
  also have "\<dots> = Some v"
    unfolding map_of_see_table assms(1) by simp
  finally show ?thesis .
qed

lemma iter_schemas_loop_cong:
  assumes "\<forall>c. fst (schemas_list ws' c) = fst (schemas_list ws c)"
  shows "iter_schemas_loop ws' cats = iter_schemas_loop ws cats"
proof (induction cats)
  case Nil
  show ?case by simp
next
  case (Cons c cats)
  show ?case
    unfolding iter_schemas_loop_Cons Cons.IH using assms
    by (cases "CatalogInfo.name c") simp_all
qed

lemma scanned_tables_loop_cong:
  assumes "\<forall>cn sn. (if snd (tables_list ws' cn sn) = None then fst (tables_list ws' cn sn) else [])
                  = (if snd (tables_list ws cn sn) = None then fst (tables_list ws cn sn) else [])"
  shows "scanned_tables_loop ws' schemas = scanned_tables_loop ws schemas"
proof (induction schemas)
  case Nil
  show ?case by simp
next
  case (Cons s schemas)
  show ?case
    unfolding scanned_tables_loop_Cons Cons.IH using assms
    by (cases "catalog_name s"; cases "SchemaInfo.name s") simp_all
qed

lemma get_seen_tables_cong:
  assumes "catalogs_list ws' = catalogs_list ws"
    and "\<forall>c. fst (schemas_list ws' c) = fst (schemas_list ws c)"
    and "\<forall>cn sn. (if snd (tables_list ws' cn sn) = None then fst (tables_list ws' cn sn) else [])
                  = (if snd (tables_list ws cn sn) = None then fst (tables_list ws cn sn) else [])"
  shows "get_seen_tables ws' = get_seen_tables ws"
proof -
  have "iter_catalogs ws' = iter_catalogs ws"
    by (simp add: iter_catalogs_def assms(1))
  then have "iter_schemas ws' = iter_schemas ws"
    by (simp add: iter_schemas_def iter_schemas_loop_cong [OF assms(2)])
  then have "scanned_tables ws' = scanned_tables ws"
    by (simp add: scanned_tables_def scanned_tables_loop_cong [OF assms(3)])
  then show ?thesis
    by (simp add: get_seen_tables_scanned)
qed


section \<open>Claims about the scan\<close>

text \<open>
  C6, as amended. The claim reads: the map of the scan has the entry
  \<open>full_name.lower() \<mapsto> upgraded_from.lower()\<close> for every table with the
  back-reference property and a fully qualified name, and no entry from a table of an
  excluded catalog, without the property or without a name. An entry written later
  under the same key replaces the earlier one (the last write wins). What holds: every
  entry of the map comes from a table the scan reads (in a catalog that is not
  excluded) that has the property and a non-empty fully qualified name; the tables the
  scan reads are those of \<open>scanned_tables\<close>, in the order of the scan; a table with
  the property and a name that is the last one read under its lower-cased name has
  its entry \<open>full_name.lower() \<mapsto> upgraded_from.lower()\<close> in the map; so every such
  table has an entry under \<open>full_name.lower()\<close>, and it is its own
  \<open>upgraded_from.lower()\<close> when the tables read under the same lower-cased name agree
  on it.
\<close>

theorem seen_tables_entries:
  "(\<forall>k v. map_of (get_seen_tables ws) k = Some v
       \<longrightarrow> (\<exists>table fname up. listed ws table \<and> back_reference table = Some up
                \<and> TableInfo.full_name table = Some fname \<and> fname \<noteq> []
                \<and> k = lower fname \<and> v = lower up))
   \<and> (\<forall>table. listed ws table \<longleftrightarrow> table \<in> set (scanned_tables ws))
   \<and> (\<forall>before table after fname up.
       scanned_tables ws = before @ table # after \<and> back_reference table = Some up
       \<and> TableInfo.full_name table = Some fname \<and> fname \<noteq> []
       \<and> (\<forall>table' \<in> set after. \<forall>fname' up'. back_reference table' = Some up'
              \<and> TableInfo.full_name table' = Some fname' \<and> fname' \<noteq> []
            \<longrightarrow> lower fname' \<noteq> lower fname)
       \<longrightarrow> map_of (get_seen_tables ws) (lower fname) = Some (lower up))
   \<and> (\<forall>table fname up. listed ws table \<and> back_reference table = Some up
          \<and> TableInfo.full_name table = Some fname \<and> fname \<noteq> []
       \<longrightarrow> (\<exists>v. map_of (get_seen_tables ws) (lower fname) = Some v)
           \<and> ((\<forall>table' fname' up'. listed ws table' \<and> back_reference table' = Some up'
                   \<and> TableInfo.full_name table' = Some fname' \<and> lower fname' = lower fname
                 \<longrightarrow> lower up' = lower up)
               \<longrightarrow> map_of (get_seen_tables ws) (lower fname) = Some (lower up)))"
proof -
  have sound: "\<exists>table fname up. listed ws table \<and> back_reference table = Some up
                \<and> TableInfo.full_name table = Some fname \<and> fname \<noteq> []
                \<and> k = lower fname \<and> v = lower up"
    if "map_of (get_seen_tables ws) k = Some v" for k v
  proof -
    from that have "map_of (foldl see_table [] (scanned_tables ws)) k = Some v"
      by (simp add: get_seen_tables_scanned)
    from foldl_see_table_sound [OF this]
    obtain t where "t \<in> set (scanned_tables ws)" and "seen_entry t = Some (k, v)"
      by auto
    then show ?thesis
      unfolding seen_entry_iff listed_iff_scanned by blast
  qed
  have present: "\<exists>v. map_of (get_seen_tables ws) (lower fname) = Some v"
    if "listed ws table" "back_reference table = Some up"
      "TableInfo.full_name table = Some fname" "fname \<noteq> []" for table fname up
  proof -
    from that have "table \<in> set (scanned_tables ws)"
      and "seen_entry table = Some (lower fname, lower up)"
      unfolding seen_entry_iff listed_iff_scanned by blast+
    from foldl_see_table_key [OF this] show ?thesis
      by (simp add: get_seen_tables_scanned)
  qed
  have complete: "map_of (get_seen_tables ws) (lower fname) = Some (lower up)"
    if "listed ws table" "back_reference table = Some up"
      "TableInfo.full_name table = Some fname" "fname \<noteq> []"
      and uniq: "\<forall>table' fname' up'. listed ws table' \<and> back_reference table' = Some up'
                   \<and> TableInfo.full_name table' = Some fname' \<and> lower fname' = lower fname
                 \<longrightarrow> lower up' = lower up"
    for table fname up
  proof -
    from that have t: "table \<in> set (scanned_tables ws)"
      and e: "seen_entry table = Some (lower fname, lower up)"
      unfolding seen_entry_iff listed_iff_scanned by blast+
    have u: "\<forall>t' \<in> set (scanned_tables ws). \<forall>v'. seen_entry t' = Some (lower fname, v')
               \<longrightarrow> v' = lower up"
    proof (intro ballI allI impI)
      fix t' v'
      assume t': "t' \<in> set (scanned_tables ws)"
        and e': "seen_entry t' = Some (lower fname, v')"
      from e' obtain fname' up' where "back_reference t' = Some up'"
        and "TableInfo.full_name t' = Some fname'" and "lower fname = lower fname'"
        and v': "v' = lower up'"
        unfolding seen_entry_iff by blast
      with t' uniq have "lower up' = lower up"
        unfolding listed_iff_scanned by metis
      with v' show "v' = lower up" by simp
    qed
    from foldl_see_table_complete [OF t e u] show ?thesis
      by (simp add: get_seen_tables_scanned)
  qed
  have last: "map_of (get_seen_tables ws) (lower fname) = Some (lower up)"
    if "scanned_tables ws = before @ table # after" "back_reference table = Some up"
      "TableInfo.full_name table = Some fname" "fname \<noteq> []"
      and later: "\<forall>table' \<in> set after. \<forall>fname' up'. back_reference table' = Some up'
                    \<and> TableInfo.full_name table' = Some fname' \<and> fname' \<noteq> []
                  \<longrightarrow> lower fname' \<noteq> lower fname"
    for before table after fname up
  proof -
    from that have e: "seen_entry table = Some (lower fname, lower up)"
      unfolding seen_entry_iff by blast
    have n: "\<forall>t' \<in> set after. \<forall>v'. seen_entry t' \<noteq> Some (lower fname, v')"
    proof (intro ballI allI notI)
      fix t' v'
      assume t': "t' \<in> set after" and "seen_entry t' = Some (lower fname, v')"
      then obtain fname' up' where "back_reference t' = Some up'"
        and "TableInfo.full_name t' = Some fname'" and "fname' \<noteq> []"
        and same: "lower fname = lower fname'"
        unfolding seen_entry_iff by blast
      with t' later have "lower fname' \<noteq> lower fname"
        by blast
      with same show False
        by simp
    qed
    from foldl_see_table_last [OF e n] that(1) show ?thesis
      by (simp add: get_seen_tables_scanned)
  qed
  have order: "\<forall>table. listed ws table \<longleftrightarrow> table \<in> set (scanned_tables ws)"
    by (simp add: listed_iff_scanned)
  have agree: "\<forall>table fname up. listed ws table \<and> back_reference table = Some up
          \<and> TableInfo.full_name table = Some fname \<and> fname \<noteq> []
       \<longrightarrow> (\<exists>v. map_of (get_seen_tables ws) (lower fname) = Some v)
           \<and> ((\<forall>table' fname' up'. listed ws table' \<and> back_reference table' = Some up'
                   \<and> TableInfo.full_name table' = Some fname' \<and> lower fname' = lower fname
                 \<longrightarrow> lower up' = lower up)
               \<longrightarrow> map_of (get_seen_tables ws) (lower fname) = Some (lower up))"
    using present complete by blast
  show ?thesis
  proof (intro conjI)
    show "\<forall>k v. map_of (get_seen_tables ws) k = Some v
       \<longrightarrow> (\<exists>table fname up. listed ws table \<and> back_reference table = Some up
                \<and> TableInfo.full_name table = Some fname \<and> fname \<noteq> []
                \<and> k = lower fname \<and> v = lower up)"
      using sound by blast
    show "\<forall>table. listed ws table \<longleftrightarrow> table \<in> set (scanned_tables ws)"
      by (rule order)
    show "\<forall>before table after fname up.
       scanned_tables ws = before @ table # after \<and> back_reference table = Some up
       \<and> TableInfo.full_name table = Some fname \<and> fname \<noteq> []
       \<and> (\<forall>table' \<in> set after. \<forall>fname' up'. back_reference table' = Some up'
              \<and> TableInfo.full_name table' = Some fname' \<and> fname' \<noteq> []
            \<longrightarrow> lower fname' \<noteq> lower fname)
       \<longrightarrow> map_of (get_seen_tables ws) (lower fname) = Some (lower up)"
      using last by blast
    show "\<forall>table fname up. listed ws table \<and> back_reference table = Some up
          \<and> TableInfo.full_name table = Some fname \<and> fname \<noteq> []
       \<longrightarrow> (\<exists>v. map_of (get_seen_tables ws) (lower fname) = Some v)
           \<and> ((\<forall>table' fname' up'. listed ws table' \<and> back_reference table' = Some up'
                   \<and> TableInfo.full_name table' = Some fname' \<and> lower fname' = lower fname
                 \<longrightarrow> lower up' = lower up)
               \<longrightarrow> map_of (get_seen_tables ws) (lower fname) = Some (lower up))"
      by (rule agree)
  qed
qed

theorem seen_tables_entries_witness:
  "map_of (get_seen_tables example_ws) (lower ''main.sales.Orders'')
     = Some (lower ''hive_metastore.Sales.orders'')
   \<and> (\<exists>table fname up. listed example_ws table \<and> back_reference table = Some up
          \<and> TableInfo.full_name table = Some fname \<and> fname \<noteq> []
          \<and> ''sales.items'' = lower fname \<and> ''hive_metastore.sales.items'' = lower up)
   \<and> map_of (get_seen_tables twice_ws) (lower ''main.sales.orders'')
       = Some (lower ''hive_metastore.sales.orders_old'')"
proof -
  have sc: "scanned_tables example_ws
              = [orders_table, items_table, plain_table, nameless_table]"
    by code_simp
  have l: "listed example_ws orders_table"
    unfolding listed_iff_scanned sc by simp
  have b: "back_reference orders_table = Some ''hive_metastore.Sales.orders''"
    by code_simp
  have f: "TableInfo.full_name orders_table = Some ''main.sales.Orders''"
    by (simp add: orders_table_def)
  have other: "lower ''sales.items'' \<noteq> lower ''main.sales.Orders''"
    by code_simp
  have plain: "back_reference plain_table = None"
    by code_simp
  have u: "\<forall>table' fname' up'. listed example_ws table' \<and> back_reference table' = Some up'
             \<and> TableInfo.full_name table' = Some fname'
             \<and> lower fname' = lower ''main.sales.Orders''
           \<longrightarrow> lower up' = lower ''hive_metastore.Sales.orders''"
  proof (intro allI impI)
    fix table' fname' up'
    assume a: "listed example_ws table' \<and> back_reference table' = Some up'
               \<and> TableInfo.full_name table' = Some fname'
               \<and> lower fname' = lower ''main.sales.Orders''"
    then have "table' = orders_table \<or> table' = items_table \<or> table' = plain_table
               \<or> table' = nameless_table"
      unfolding listed_iff_scanned sc by simp
    then show "lower up' = lower ''hive_metastore.Sales.orders''"
    proof (elim disjE)
      assume "table' = orders_table"
      with a b show ?thesis by simp
    next
      assume "table' = items_table"
      with a other show ?thesis by (simp add: items_table_def)
    next
      assume "table' = plain_table"
      with a plain show ?thesis by simp
    next
      assume "table' = nameless_table"
      with a show ?thesis by (simp add: nameless_table_def)
    qed
  qed
  have m: "map_of (get_seen_tables example_ws) ''sales.items''
             = Some ''hive_metastore.sales.items''"
    by code_simp
  have ne: "''main.sales.Orders'' \<noteq> []"
    by simp
  from seen_tables_entries [of example_ws] l b f ne u
  have first: "map_of (get_seen_tables example_ws) (lower ''main.sales.Orders'')
                 = Some (lower ''hive_metastore.Sales.orders'')"
    by blast
  from seen_tables_entries [of example_ws] m
  have second: "\<exists>table fname up. listed example_ws table \<and> back_reference table = Some up
          \<and> TableInfo.full_name table = Some fname \<and> fname \<noteq> []
          \<and> ''sales.items'' = lower fname \<and> ''hive_metastore.sales.items'' = lower up"
    by blast
  have sc2: "scanned_tables twice_ws = [orders_table] @ orders_table_again # []"
    by code_simp
  have b2: "back_reference orders_table_again = Some ''hive_metastore.sales.orders_old''"
    by code_simp
  have f2: "TableInfo.full_name orders_table_again = Some ''main.sales.orders''"
    by (simp add: orders_table_again_def)
  have ne2: "''main.sales.orders'' \<noteq> []"
    by simp
  have later: "\<forall>table' \<in> set []. \<forall>fname' up'. back_reference table' = Some up'
                 \<and> TableInfo.full_name table' = Some fname' \<and> fname' \<noteq> []
               \<longrightarrow> lower fname' \<noteq> lower ''main.sales.orders''"
    by simp
  from seen_tables_entries [of twice_ws] sc2 b2 f2 ne2 later
  have third: "map_of (get_seen_tables twice_ws) (lower ''main.sales.orders'')
                 = Some (lower ''hive_metastore.sales.orders_old'')"
    by blast
  from first second third show ?thesis
    by blast
qed

text \<open>
  C6 as stated fails when two tables of one listing have the same fully qualified
  name and different back-references: the first is read by the scan, has the property
  and a name, and the map does not hold its entry.
\<close>

theorem seen_tables_entries_counterexample:
  "listed twice_ws orders_table
   \<and> back_reference orders_table = Some ''hive_metastore.Sales.orders''
   \<and> TableInfo.full_name orders_table = Some ''main.sales.Orders''
   \<and> map_of (get_seen_tables twice_ws) (lower ''main.sales.Orders'')
       \<noteq> Some (lower ''hive_metastore.Sales.orders'')"
proof -
  have sc: "scanned_tables twice_ws = [orders_table, orders_table_again]"
    by code_simp
  have l: "listed twice_ws orders_table"
    unfolding listed_iff_scanned sc by simp
  have b: "back_reference orders_table = Some ''hive_metastore.Sales.orders''"
    by code_simp
  have f: "TableInfo.full_name orders_table = Some ''main.sales.Orders''"
    by (simp add: orders_table_def)
  have m: "map_of (get_seen_tables twice_ws) (lower ''main.sales.Orders'')
             \<noteq> Some (lower ''hive_metastore.Sales.orders'')"
    by code_simp
  from l b f m show ?thesis
    by simp
qed

text \<open>
  C7, as amended. The claim reads: when the listing of the schemas of a catalog, or of
  the tables of a schema, fails with not-found or a generic remote error, the scan
  does not raise, skips that catalog or schema, and the map still has every entry of
  the other catalogs and schemas. The schemas a listing yields before it fails are
  passed on and scanned, so the catalog is skipped only from the error on. What
  holds: when the listing of the schemas of a catalog fails, the scan gives the map it
  gives when that listing ends without error after the schemas it has yielded (none,
  when it fails at once: then the catalog is skipped); when the listing of the tables
  of a schema fails, the scan gives the map it gives when that schema has no table.
  The scan has no error result, and the entries of the other catalogs and schemas are
  all in the map.
\<close>

theorem seen_tables_skip_failed_listing:
  "(schemas_list ws cname = (schemas, Some e)
      \<longrightarrow> get_seen_tables ws
          = get_seen_tables (ws\<lparr>schemas_list := (schemas_list ws)(cname := (schemas, None))\<rparr>))
   \<and> (tables_list ws cn sn = (tables, Some e')
      \<longrightarrow> get_seen_tables ws
          = get_seen_tables
              (ws\<lparr>tables_list := (tables_list ws)(cn := (tables_list ws cn)(sn := ([], None)))\<rparr>))"
proof -
  have a: "get_seen_tables (ws\<lparr>schemas_list := (schemas_list ws)(cname := (schemas, None))\<rparr>)
             = get_seen_tables ws"
    if "schemas_list ws cname = (schemas, Some e)"
    by (rule get_seen_tables_cong) (simp_all add: that)
  have b: "get_seen_tables
             (ws\<lparr>tables_list := (tables_list ws)(cn := (tables_list ws cn)(sn := ([], None)))\<rparr>)
             = get_seen_tables ws"
    if "tables_list ws cn sn = (tables, Some e')"
    by (rule get_seen_tables_cong) (auto simp: that)
  from a b show ?thesis
    by simp
qed

theorem seen_tables_skip_failed_listing_witness:
  "get_seen_tables example_ws
     = get_seen_tables
         (example_ws\<lparr>schemas_list := (schemas_list example_ws)(''dead'' := ([], None))\<rparr>)
   \<and> get_seen_tables example_ws
     = get_seen_tables
         (example_ws\<lparr>tables_list := (tables_list example_ws)
            (''main'' := (tables_list example_ws ''main'')(''broken'' := ([], None)))\<rparr>)
   \<and> map_of (get_seen_tables example_ws) ''main.sales.orders''
     = Some ''hive_metastore.sales.orders''
   \<and> get_seen_tables partial_ws
     = get_seen_tables
         (partial_ws\<lparr>schemas_list := (schemas_list partial_ws)
            (''main'' := ([sales_schema], None))\<rparr>)"
proof -
  have h4: "schemas_list partial_ws ''main'' = ([sales_schema], Some DatabricksError)"
    by (simp add: partial_ws_def)
  have h1: "schemas_list example_ws ''dead'' = ([], Some NotFound)"
    by (simp add: example_ws_def)
  have h2: "tables_list example_ws ''main'' ''broken'' = ([lost_table], Some DatabricksError)"
    by (simp add: example_ws_def)
  have h3: "map_of (get_seen_tables example_ws) ''main.sales.orders''
              = Some ''hive_metastore.sales.orders''"
    by code_simp
  show ?thesis
    using h1 h2 h3 h4
      seen_tables_skip_failed_listing [where ws = example_ws and cname = "''dead''"
        and schemas = "[]" and e = NotFound and cn = "''main''" and sn = "''broken''"
        and tables = "[lost_table]" and e' = DatabricksError]
      seen_tables_skip_failed_listing [where ws = partial_ws and cname = "''main''"
        and schemas = "[sales_schema]" and e = DatabricksError]
    by blast
qed

text \<open>
  C7 as stated fails when the listing of the schemas of a catalog yields a schema and
  then fails: the tables of that schema are scanned and their entries are in the map,
  where skipping the catalog gives the empty map.
\<close>

theorem seen_tables_skip_failed_listing_counterexample:
  "schemas_list partial_ws ''main'' = ([sales_schema], Some DatabricksError)
   \<and> get_seen_tables partial_ws = [(''main.sales.orders'', ''hive_metastore.sales.orders'')]
   \<and> get_seen_tables
       (partial_ws\<lparr>schemas_list := (schemas_list partial_ws)(''main'' := ([], None))\<rparr>) = []"
proof -
  have a: "schemas_list partial_ws ''main'' = ([sales_schema], Some DatabricksError)"
    by (simp add: partial_ws_def)
  have b: "get_seen_tables partial_ws
             = [(''main.sales.orders'', ''hive_metastore.sales.orders'')]"
    by code_simp
  have c: "get_seen_tables
             (partial_ws\<lparr>schemas_list := (schemas_list partial_ws)(''main'' := ([], None))\<rparr>)
             = []"
    by code_simp
  from a b c show ?thesis
    by simp
qed

end
